theory Spec2Isabelle
  imports Main
begin

unbundle bit_operations_syntax

section \<open>py65.utils.console: the data model\<close>

text \<open>
  The module \<^verbatim>\<open>py65/utils/console.py\<close> defines five terminal operations twice, once
  under \<^verbatim>\<open>if sys.platform[:3] == "win"\<close> (on top of \<^verbatim>\<open>msvcrt\<close>) and once in
  the \<^verbatim>\<open>else\<close> branch (on top of \<^verbatim>\<open>termios\<close>), and a line editor
  \<^verbatim>\<open>line_input\<close> on top of \<^verbatim>\<open>getch\<close>.

  Everything the module touches outside itself is collected in one record, the
  \<open>world\<close>: the input handle (what \<^verbatim>\<open>fileno()\<close> answers and what the coming
  calls of \<^verbatim>\<open>read(1)\<close> will answer), the output handle (the writes and flushes
  it has received), the kernel's terminals, the constants of the \<^verbatim>\<open>termios\<close>
  module, the Python heap holding the attribute lists, and the module global
  \<^verbatim>\<open>oldattr\<close>. Every operation takes the world and returns the new one together
  with its outcome: a value, or the exception it raises.
\<close>

subsection \<open>Exceptions and outcomes\<close>

datatype exn =
    KeyboardInterrupt
  | TermiosError
  | IndexError
  | TypeError
  | OSError
  | UnsupportedOperation

type_synonym 'a result = "exn + 'a"

text \<open>
  One answer of the input handle to a single-character read: a character, nothing
  (the empty string: the 0.1 s timeout of a noncanonical terminal ran out, or the
  stream is at its end), or an exception.
\<close>

datatype read_outcome = Got char | Nothing | Raises exn

datatype out_event = Write string | Flush

subsection \<open>Terminal attributes\<close>

text \<open>
  The kernel's \<^verbatim>\<open>struct termios\<close> of one terminal. Flags and speeds are the
  non-negative Python integers \<^verbatim>\<open>tcgetattr\<close> reports; the control characters
  are kept by their numeric value.
\<close>

record termios_c =
  c_iflag :: int
  c_oflag :: int
  c_cflag :: int
  c_lflag :: int
  c_ispeed :: int
  c_ospeed :: int
  c_cc :: "int list"

datatype optional_actions = TCSANOW | TCSADRAIN | TCSAFLUSH

text \<open>
  A terminal device: its live attributes, and the \<^verbatim>\<open>when\<close> argument of the
  \<^verbatim>\<open>tcsetattr\<close> call that installed them (\<open>None\<close> while no call has).
\<close>

record terminal =
  live :: termios_c
  how_set :: "optional_actions option"

text \<open>
  Python objects. \<^verbatim>\<open>tcgetattr\<close> returns a list
  \<^verbatim>\<open>[iflag, oflag, cflag, lflag, ispeed, ospeed, cc]\<close> whose last element is
  itself a list. Both are mutable objects on the heap; a variable holds a reference.
  \<open>attr_list\<close> is the outer list (indices 0 to 5 by name, index 6 the reference to
  the inner list).
\<close>

type_synonym ref = nat

record attr_list =
  iflag :: int
  oflag :: int
  cflag :: int
  lflag :: int
  ispeed :: int
  ospeed :: int
  cc :: ref

text \<open>The constants of the \<^verbatim>\<open>termios\<close> module that the source uses.\<close>

record termios_module =
  ICANON :: int
  ECHO :: int
  VMIN :: nat
  VTIME :: nat

record world =
  oldattr :: "ref option"
  attr_heap :: "ref \<Rightarrow> attr_list option"
  cc_heap :: "ref \<Rightarrow> int list option"
  next_ref :: ref
  ttys :: "int \<Rightarrow> terminal option"
  termios :: termios_module
  fileno :: "int result"
  pending :: "read_outcome list"
  stdout :: "out_event list"

subsection \<open>Sequencing and exception handling\<close>

type_synonym 'a action = "world \<Rightarrow> 'a result \<times> world"

definition return :: "'a \<Rightarrow> 'a action" where
  "return v w = (Inr v, w)"

text \<open>Statement sequencing: an exception of the first statement skips the rest.\<close>

definition seq :: "'a action \<Rightarrow> ('a \<Rightarrow> 'b action) \<Rightarrow> 'b action" where
  "seq m f w = (case m w of (Inl e, w') \<Rightarrow> (Inl e, w') | (Inr v, w') \<Rightarrow> f v w')"

text \<open>
  \<^verbatim>\<open>try: body  except: pass\<close>. The bare \<^verbatim>\<open>except\<close> catches every exception,
  \<^verbatim>\<open>KeyboardInterrupt\<close> included; what the body did to the world before it raised
  stays done.
\<close>

definition try_except_pass :: "'a action \<Rightarrow> unit action" where
  "try_except_pass body w = (case body w of (Inl e, w') \<Rightarrow> (Inr (), w') | (Inr v, w') \<Rightarrow> (Inr (), w'))"

subsection \<open>The input and output handles\<close>

definition stdin_fileno :: "int action" where
  "stdin_fileno w = (fileno w, w)"

text \<open>
  \<^verbatim>\<open>stdin.read(1)\<close> takes the next answer of the handle. When no answer is
  left the stream is at its end and every read returns the empty string.
\<close>

definition stdin_read1 :: "string action" where
  "stdin_read1 w =
     (case pending w of
        [] \<Rightarrow> (Inr [], w)
      | Got c # rest \<Rightarrow> (Inr [c], w\<lparr>pending := rest\<rparr>)
      | Nothing # rest \<Rightarrow> (Inr [], w\<lparr>pending := rest\<rparr>)
      | Raises e # rest \<Rightarrow> (Inl e, w\<lparr>pending := rest\<rparr>))"

definition stdout_write :: "string \<Rightarrow> unit action" where
  "stdout_write s w = (Inr (), w\<lparr>stdout := stdout w @ [Write s]\<rparr>)"

definition stdout_flush :: "unit action" where
  "stdout_flush w = (Inr (), w\<lparr>stdout := stdout w @ [Flush]\<rparr>)"

subsection \<open>The termios calls and the list operations of the source\<close>

text \<open>
  \<^verbatim>\<open>termios.tcgetattr(fd)\<close> raises \<^verbatim>\<open>termios.error\<close> when \<open>fd\<close> is not a
  terminal. Otherwise it builds two new lists from the live attributes and returns
  the outer one.
\<close>

definition tcgetattr :: "int \<Rightarrow> ref action" where
  "tcgetattr fd w =
     (case ttys w fd of
        None \<Rightarrow> (Inl TermiosError, w)
      | Some t \<Rightarrow>
          (let rc = next_ref w; ra = Suc (next_ref w); a = live t in
           (Inr ra,
            w\<lparr>cc_heap := (cc_heap w)(rc := Some (c_cc a)),
              attr_heap := (attr_heap w)(ra := Some
                \<lparr>iflag = c_iflag a, oflag = c_oflag a, cflag = c_cflag a, lflag = c_lflag a,
                 ispeed = c_ispeed a, ospeed = c_ospeed a, cc = rc\<rparr>),
              next_ref := Suc (Suc (next_ref w))\<rparr>)))"

text \<open>
  \<^verbatim>\<open>termios.tcsetattr(fd, when, attributes)\<close> raises \<^verbatim>\<open>TypeError\<close> unless
  \<open>attributes\<close> is a list of the right shape, and \<^verbatim>\<open>termios.error\<close> when \<open>fd\<close>
  is not a terminal; otherwise it installs the attributes.
\<close>

definition read_attributes :: "world \<Rightarrow> ref \<Rightarrow> termios_c option" where
  "read_attributes w r =
     (case attr_heap w r of
        None \<Rightarrow> None
      | Some a \<Rightarrow>
          (case cc_heap w (cc a) of
             None \<Rightarrow> None
           | Some chars \<Rightarrow>
               Some \<lparr>c_iflag = iflag a, c_oflag = oflag a, c_cflag = cflag a,
                     c_lflag = lflag a, c_ispeed = ispeed a, c_ospeed = ospeed a,
                     c_cc = chars\<rparr>))"

definition tcsetattr :: "int \<Rightarrow> optional_actions \<Rightarrow> ref \<Rightarrow> unit action" where
  "tcsetattr fd when r w =
     (case read_attributes w r of
        None \<Rightarrow> (Inl TypeError, w)
      | Some a \<Rightarrow>
          (case ttys w fd of
             None \<Rightarrow> (Inl TermiosError, w)
           | Some t \<Rightarrow>
               (Inr (), w\<lparr>ttys := (ttys w)(fd := Some \<lparr>live = a, how_set = Some when\<rparr>)\<rparr>)))"

text \<open>\<^verbatim>\<open>xs[:]\<close> on an attribute list: a new outer list with the same elements, so
  the inner list is shared with the original.\<close>

definition list_copy :: "ref \<Rightarrow> ref action" where
  "list_copy r w =
     (case attr_heap w r of
        None \<Rightarrow> (Inl TypeError, w)
      | Some a \<Rightarrow>
          (Inr (next_ref w),
           w\<lparr>attr_heap := (attr_heap w)(next_ref w := Some a), next_ref := Suc (next_ref w)\<rparr>))"

text \<open>\<^verbatim>\<open>xs[3] &= m\<close> on an attribute list.\<close>

definition and_item3 :: "ref \<Rightarrow> int \<Rightarrow> unit action" where
  "and_item3 r m w =
     (case attr_heap w r of
        None \<Rightarrow> (Inl TypeError, w)
      | Some a \<Rightarrow> (Inr (), w\<lparr>attr_heap := (attr_heap w)(r := Some (a\<lparr>lflag := lflag a AND m\<rparr>))\<rparr>))"

text \<open>\<^verbatim>\<open>xs[6][i] = v\<close> on an attribute list: the assignment goes to the inner
  list, in place, and raises \<^verbatim>\<open>IndexError\<close> when \<open>i\<close> is out of range.\<close>

definition set_item6 :: "ref \<Rightarrow> nat \<Rightarrow> int \<Rightarrow> unit action" where
  "set_item6 r i v w =
     (case attr_heap w r of
        None \<Rightarrow> (Inl TypeError, w)
      | Some a \<Rightarrow>
          (case cc_heap w (cc a) of
             None \<Rightarrow> (Inl TypeError, w)
           | Some chars \<Rightarrow>
               (if i < length chars
                then (Inr (), w\<lparr>cc_heap := (cc_heap w)(cc a := Some (chars[i := v]))\<rparr>)
                else (Inl IndexError, w))))"

section \<open>The terminal mode controller\<close>

subsection \<open>The termios variant\<close>

definition save_mode_posix :: "unit action" where
  "save_mode_posix =
     try_except_pass
       (seq stdin_fileno (\<lambda>fd.
        seq (tcgetattr fd) (\<lambda>r w.
        (Inr (), w\<lparr>oldattr := Some r\<rparr>))))"

definition noncanonical_mode_posix :: "unit action" where
  "noncanonical_mode_posix =
     try_except_pass
       (seq stdin_fileno (\<lambda>fd.
        seq (tcgetattr fd) (\<lambda>currentattr.
        seq (list_copy currentattr) (\<lambda>newattr.
        seq (\<lambda>w. and_item3 newattr (NOT (ICANON (termios w)) AND NOT (ECHO (termios w))) w) (\<lambda>_.
        seq (\<lambda>w. set_item6 newattr (VMIN (termios w)) 0 w) (\<lambda>_.
        seq (\<lambda>w. set_item6 newattr (VTIME (termios w)) 1 w) (\<lambda>_.
        tcsetattr fd TCSANOW newattr)))))))"

definition restore_mode_posix :: "unit action" where
  "restore_mode_posix =
     try_except_pass
       (seq stdin_fileno (\<lambda>fd w.
        (case oldattr w of
           Some r \<Rightarrow> tcsetattr fd TCSANOW r w
         | None \<Rightarrow> (Inr (), w))))"

text \<open>
  The loop \<^verbatim>\<open>while char == '': ...\<close> of \<^verbatim>\<open>getch\<close>. It runs for as long as
  the reads return the empty string or raise something other than
  \<^verbatim>\<open>KeyboardInterrupt\<close>, possibly forever: the value \<open>None\<close> stands for a call
  that does not return.
\<close>

partial_function (option) getch_while :: "string \<Rightarrow> world \<Rightarrow> (string result \<times> world) option" where
  "getch_while char w =
     (if char = []
      then (case stdin_read1 w of
              (Inr c, w') \<Rightarrow> getch_while c w'
            | (Inl KeyboardInterrupt, w') \<Rightarrow> Some (Inl KeyboardInterrupt, w')
            | (Inl _, w') \<Rightarrow> getch_while char w')
      else Some (Inr char, w))"

definition getch_posix :: "world \<Rightarrow> (string result \<times> world) option" where
  "getch_posix w =
     (case noncanonical_mode_posix w of
        (Inl e, w') \<Rightarrow> Some (Inl e, w')
      | (Inr _, w') \<Rightarrow> getch_while [] w')"

definition getch_noblock_posix :: "string action" where
  "getch_noblock_posix w =
     (case noncanonical_mode_posix w of
        (Inl e, w') \<Rightarrow> (Inl e, w')
      | (Inr _, w') \<Rightarrow>
          (case (case stdin_read1 w' of
                   (Inr c, w'') \<Rightarrow> (Inr c, w'')
                 | (Inl KeyboardInterrupt, w'') \<Rightarrow> (Inl KeyboardInterrupt, w'')
                 | (Inl _, w'') \<Rightarrow> (Inr [], w'')) of
             (Inl e, w'') \<Rightarrow> (Inl e, w'')
           | (Inr char, w'') \<Rightarrow>
               (if char = [CHR 0x0A] then (Inr [CHR 0x0D], w'') else (Inr char, w''))))"

subsection \<open>The msvcrt variant\<close>

text \<open>
  The console of \<^verbatim>\<open>msvcrt\<close> is read from the same list of coming answers.
  \<^verbatim>\<open>msvcrt.getch()\<close> waits until a key arrives: it passes over the moments at
  which nothing is there, and does not return when no key ever arrives.
  \<^verbatim>\<open>msvcrt.kbhit()\<close> looks at the present moment only. A key is one byte; the
  latin-1 decoding of a byte is the character with the same code, so the decoded
  string is written \<open>[c]\<close>.
\<close>

fun msvcrt_getch_from :: "read_outcome list \<Rightarrow> (char result \<times> read_outcome list) option" where
  "msvcrt_getch_from [] = None"
| "msvcrt_getch_from (Nothing # rest) = msvcrt_getch_from rest"
| "msvcrt_getch_from (Got c # rest) = Some (Inr c, rest)"
| "msvcrt_getch_from (Raises e # rest) = Some (Inl e, rest)"

definition msvcrt_getch :: "world \<Rightarrow> (char result \<times> world) option" where
  "msvcrt_getch w =
     (case msvcrt_getch_from (pending w) of
        None \<Rightarrow> None
      | Some (r, rest) \<Rightarrow> Some (r, w\<lparr>pending := rest\<rparr>))"

definition msvcrt_kbhit :: "bool action" where
  "msvcrt_kbhit w =
     (case pending w of
        [] \<Rightarrow> (Inr False, w)
      | Got c # rest \<Rightarrow> (Inr True, w)
      | Nothing # rest \<Rightarrow> (Inr False, w\<lparr>pending := rest\<rparr>)
      | Raises e # rest \<Rightarrow> (Inl e, w\<lparr>pending := rest\<rparr>))"

definition save_mode_win :: "unit action" where
  "save_mode_win = return ()"

definition noncanonical_mode_win :: "unit action" where
  "noncanonical_mode_win = return ()"

definition restore_mode_win :: "unit action" where
  "restore_mode_win = return ()"

definition getch_win :: "world \<Rightarrow> (string result \<times> world) option" where
  "getch_win w =
     (case msvcrt_getch w of
        None \<Rightarrow> None
      | Some (Inl e, w') \<Rightarrow> Some (Inl e, w')
      | Some (Inr c, w') \<Rightarrow> Some (Inr [c], w'))"

definition getch_noblock_win :: "world \<Rightarrow> (string result \<times> world) option" where
  "getch_noblock_win w =
     (case msvcrt_kbhit w of
        (Inl e, w') \<Rightarrow> Some (Inl e, w')
      | (Inr hit, w') \<Rightarrow> (if hit then getch_win w' else Some (Inr [], w')))"

subsection \<open>The module as imported on a platform\<close>

text \<open>\<^verbatim>\<open>sys.platform[:3] == "win"\<close> chooses the definitions.\<close>

definition is_win :: "string \<Rightarrow> bool" where
  "is_win sys_platform = (take 3 sys_platform = ''win'')"

definition save_mode :: "string \<Rightarrow> unit action" where
  "save_mode sys_platform = (if is_win sys_platform then save_mode_win else save_mode_posix)"

definition noncanonical_mode :: "string \<Rightarrow> unit action" where
  "noncanonical_mode sys_platform =
     (if is_win sys_platform then noncanonical_mode_win else noncanonical_mode_posix)"

definition restore_mode :: "string \<Rightarrow> unit action" where
  "restore_mode sys_platform =
     (if is_win sys_platform then restore_mode_win else restore_mode_posix)"

definition getch :: "string \<Rightarrow> world \<Rightarrow> (string result \<times> world) option" where
  "getch sys_platform w = (if is_win sys_platform then getch_win w else getch_posix w)"

definition getch_noblock :: "string \<Rightarrow> world \<Rightarrow> (string result \<times> world) option" where
  "getch_noblock sys_platform w =
     (if is_win sys_platform then getch_noblock_win w else Some (getch_noblock_posix w))"

section \<open>The line input reader\<close>

text \<open>\<^verbatim>\<open>ord(char)\<close> raises \<^verbatim>\<open>TypeError\<close> unless the string has length one.\<close>

definition ord :: "string \<Rightarrow> nat result" where
  "ord s = (case s of [c] \<Rightarrow> Inr (of_char c) | _ \<Rightarrow> Inl TypeError)"

text \<open>The text written after a backspace:
  \<^verbatim>\<open>"\r%s\r%s%s" % (' ' * (len(prompt + line) + 5), prompt, line)\<close>.\<close>

definition redraw :: "string \<Rightarrow> string \<Rightarrow> string" where
  "redraw prompt line =
     [CHR 0x0D] @ replicate (length (prompt @ line) + 5) CHR '' '' @ [CHR 0x0D] @ prompt @ line"

text \<open>The loop \<^verbatim>\<open>while True: ...\<close> of \<^verbatim>\<open>line_input\<close>, entered with the
  buffer \<open>line\<close>.\<close>

partial_function (option) line_input_while ::
    "string \<Rightarrow> string \<Rightarrow> string \<Rightarrow> world \<Rightarrow> (string result \<times> world) option" where
  "line_input_while sys_platform prompt line w =
     (case getch sys_platform w of
        None \<Rightarrow> None
      | Some (Inl e, w1) \<Rightarrow> Some (Inl e, w1)
      | Some (Inr char, w1) \<Rightarrow>
          (case ord char of
             Inl e \<Rightarrow> Some (Inl e, w1)
           | Inr code \<Rightarrow>
               (if char = [CHR 0x0A] \<or> char = [CHR 0x0D] then Some (Inr line, w1)
                else if code = 0x7f \<or> code = 0x08 then
                  (if length line > 0
                   then line_input_while sys_platform prompt (butlast line)
                          (snd (stdout_write (redraw prompt (butlast line)) w1))
                   else line_input_while sys_platform prompt line w1)
                else if code = 0x1b then line_input_while sys_platform prompt line w1
                else line_input_while sys_platform prompt (line @ char)
                       (snd (stdout_flush (snd (stdout_write char w1)))))))"

definition line_input :: "string \<Rightarrow> string \<Rightarrow> world \<Rightarrow> (string result \<times> world) option" where
  "line_input sys_platform prompt w =
     line_input_while sys_platform prompt [] (snd (stdout_write prompt w))"

section \<open>Notions used in the statements\<close>

text \<open>The input handle is not a terminal: \<^verbatim>\<open>fileno()\<close> raises, or the descriptor
  it returns is not a terminal, so that every termios call on it fails.\<close>

definition not_a_terminal :: "world \<Rightarrow> bool" where
  "not_a_terminal w = (case fileno w of Inl e \<Rightarrow> True | Inr fd \<Rightarrow> ttys w fd = None)"

text \<open>The saved terminal state: the attributes that the list held by \<^verbatim>\<open>oldattr\<close>
  denotes, \<open>None\<close> while the global is \<^verbatim>\<open>None\<close>.\<close>

definition saved_state :: "world \<Rightarrow> termios_c option" where
  "saved_state w = (case oldattr w of None \<Rightarrow> None | Some r \<Rightarrow> read_attributes w r)"

text \<open>The heap discipline of Python: a reference held by \<^verbatim>\<open>oldattr\<close> points to
  an allocated attribute list whose inner list is allocated, and allocation hands
  out addresses from \<open>next_ref\<close> upwards.\<close>

definition oldattr_allocated :: "world \<Rightarrow> bool" where
  "oldattr_allocated w =
     (case oldattr w of
        None \<Rightarrow> True
      | Some r \<Rightarrow>
          r < next_ref w \<and>
          (case attr_heap w r of
             None \<Rightarrow> False
           | Some a \<Rightarrow> cc a < next_ref w \<and> cc_heap w (cc a) \<noteq> None))"

text \<open>An answer of the handle that a waiting \<^verbatim>\<open>getch\<close> passes over: nothing there
  yet, or, in the termios variant, an exception other than
  \<^verbatim>\<open>KeyboardInterrupt\<close>.\<close>

definition passed_over :: "string \<Rightarrow> read_outcome \<Rightarrow> bool" where
  "passed_over sys_platform x =
     (case x of
        Nothing \<Rightarrow> True
      | Got c \<Rightarrow> False
      | Raises e \<Rightarrow> \<not> is_win sys_platform \<and> e \<noteq> KeyboardInterrupt)"

text \<open>A world for the examples: a Linux terminal on descriptor 0 in canonical mode
  with echo, nothing saved, nothing written.\<close>

definition linux_termios :: termios_module where
  "linux_termios = \<lparr>ICANON = 2, ECHO = 8, VMIN = 6, VTIME = 5\<rparr>"

definition cooked :: termios_c where
  "cooked = \<lparr>c_iflag = 0x500, c_oflag = 5, c_cflag = 0xBF, c_lflag = 0x8A3B,
            c_ispeed = 15, c_ospeed = 15, c_cc = [3, 28, 127, 21, 4, 0, 1, 0, 17, 19, 26, 0, 18, 15, 23, 22,
                    0, 0, 0, 0, 0, 0, 0, 0, 0, 0, 0, 0, 0, 0, 0, 0]\<rparr>"

definition console :: "read_outcome list \<Rightarrow> world" where
  "console answers =
     \<lparr>oldattr = None, attr_heap = (\<lambda>r. None), cc_heap = (\<lambda>r. None), next_ref = 0,
      ttys = (\<lambda>fd. if fd = 0 then Some \<lparr>live = cooked, how_set = None\<rparr> else None),
      termios = linux_termios, fileno = Inr 0, pending = answers, stdout = []\<rparr>"

text \<open>The same program with its input redirected from a file or a pipe.\<close>

definition redirected :: "read_outcome list \<Rightarrow> world" where
  "redirected answers = (console answers)\<lparr>ttys := (\<lambda>fd. None)\<rparr>"

text \<open>Between two worlds the saved terminal state is kept: the global holds the same
  reference, the list behind it denotes the same attributes, and the heap discipline
  still holds.\<close>

definition keeps_saved_state :: "world \<Rightarrow> world \<Rightarrow> bool" where
  "keeps_saved_state w w' =
     (oldattr w' = oldattr w \<and> saved_state w' = saved_state w \<and> oldattr_allocated w')"

text \<open>What the caller of \<^verbatim>\<open>line_input\<close> sees of a call: the line returned or the
  exception raised, and what the output handle has received.\<close>

definition observable ::
    "(string result \<times> world) option \<Rightarrow> (string result \<times> out_event list) option" where
  "observable outcome = map_option (\<lambda>(r, w'). (r, stdout w')) outcome"

text \<open>The world in which a read that took the answers before \<open>rest\<close> returns: the
  switch to noncanonical mode has been attempted and \<open>rest\<close> is still to come.\<close>

abbreviation after_read :: "string \<Rightarrow> world \<Rightarrow> read_outcome list \<Rightarrow> world" where
  "after_read sys_platform w rest \<equiv> (snd (noncanonical_mode sys_platform w))\<lparr>pending := rest\<rparr>"

section \<open>Properties of the mode controller\<close>

lemmas prim_defs =
  stdin_fileno_def tcgetattr_def tcsetattr_def read_attributes_def list_copy_def
  and_item3_def set_item6_def

lemmas ctl_defs = try_except_pass_def seq_def return_def

lemma noncanonical_mode_posix_frame:
  "fst (noncanonical_mode_posix w) = Inr ()"
  "pending (snd (noncanonical_mode_posix w)) = pending w"
  "stdout (snd (noncanonical_mode_posix w)) = stdout w"
  by (auto simp: noncanonical_mode_posix_def prim_defs ctl_defs Let_def
      split: sum.splits option.splits)

lemma noncanonical_mode_pending: "pending (snd (noncanonical_mode p w)) = pending w"
  by (simp add: noncanonical_mode_def noncanonical_mode_win_def return_def
      noncanonical_mode_posix_frame)

lemma noncanonical_mode_stdout [simp]: "stdout (snd (noncanonical_mode p w)) = stdout w"
  by (simp add: noncanonical_mode_def noncanonical_mode_win_def return_def
      noncanonical_mode_posix_frame)

lemma noncanonical_mode_pending_commute:
  "snd (noncanonical_mode p (w\<lparr>pending := xs\<rparr>)) = (snd (noncanonical_mode p w))\<lparr>pending := xs\<rparr>"
  by (auto simp: noncanonical_mode_def noncanonical_mode_win_def noncanonical_mode_posix_def
      prim_defs ctl_defs Let_def split: sum.splits option.splits)

lemma noncanonical_mode_posix_tty:
  assumes "fileno w = Inr fd" and "ttys w fd = Some t"
    and "VMIN (termios w) < length (c_cc (live t))"
    and "VTIME (termios w) < length (c_cc (live t))"
  shows "ttys (snd (noncanonical_mode_posix w)) =
     (ttys w)(fd := Some
        \<lparr>live = (live t)
           \<lparr>c_lflag := c_lflag (live t) AND (NOT (ICANON (termios w)) AND NOT (ECHO (termios w))),
            c_cc := (c_cc (live t))[VMIN (termios w) := 0, VTIME (termios w) := 1]\<rparr>,
         how_set = Some TCSANOW\<rparr>)"
  using assms
  by (auto simp: noncanonical_mode_posix_def prim_defs ctl_defs Let_def
      split: sum.splits option.splits)

lemma and_not_not_zero:
  "(x AND (NOT a AND NOT b)) AND a = (0::int)"
  "(x AND (NOT a AND NOT b)) AND b = (0::int)"
  by (auto simp: bit_eq_iff bit_simps)

lemma noncanonical_mode_posix_saved:
  "oldattr_allocated w \<Longrightarrow>
     oldattr (snd (noncanonical_mode_posix w)) = oldattr w \<and>
     saved_state (snd (noncanonical_mode_posix w)) = saved_state w \<and>
     oldattr_allocated (snd (noncanonical_mode_posix w))"
  by (auto simp: oldattr_allocated_def saved_state_def noncanonical_mode_posix_def
      prim_defs ctl_defs Let_def split: sum.splits option.splits)

lemma restore_mode_posix_saved:
  "oldattr (snd (restore_mode_posix w)) = oldattr w"
  "saved_state (snd (restore_mode_posix w)) = saved_state w"
  "oldattr_allocated w \<Longrightarrow> oldattr_allocated (snd (restore_mode_posix w))"
  by (auto simp: oldattr_allocated_def saved_state_def restore_mode_posix_def
      prim_defs ctl_defs split: sum.splits option.splits)

lemma save_mode_posix_allocated:
  "oldattr_allocated w \<Longrightarrow> oldattr_allocated (snd (save_mode_posix w))"
  by (auto simp: oldattr_allocated_def save_mode_posix_def prim_defs ctl_defs Let_def
      split: sum.splits option.splits)

lemma save_mode_posix_tty:
  "fileno w = Inr fd \<Longrightarrow> ttys w fd = Some t \<Longrightarrow>
     saved_state (snd (save_mode_posix w)) = Some (live t)"
  by (auto simp: saved_state_def save_mode_posix_def prim_defs ctl_defs Let_def
      split: sum.splits option.splits)

lemma restore_mode_posix_applies:
  "fileno w = Inr fd \<Longrightarrow> ttys w fd = Some t \<Longrightarrow> saved_state w = Some a \<Longrightarrow>
     ttys (snd (restore_mode_posix w)) = (ttys w)(fd := Some \<lparr>live = a, how_set = Some TCSANOW\<rparr>)"
  by (auto simp: saved_state_def restore_mode_posix_def prim_defs ctl_defs
      split: sum.splits option.splits)

lemma saved_pending_update:
  "oldattr (w\<lparr>pending := xs\<rparr>) = oldattr w"
  "saved_state (w\<lparr>pending := xs\<rparr>) = saved_state w"
  "oldattr_allocated (w\<lparr>pending := xs\<rparr>) = oldattr_allocated w"
  by (auto simp: saved_state_def oldattr_allocated_def read_attributes_def split: option.splits)

section \<open>Properties of the single-character reads\<close>

lemma getch_while_nonempty: "char \<noteq> [] \<Longrightarrow> getch_while char w = Some (Inr char, w)"
  by (subst getch_while.simps) simp

lemma getch_while_Got:
  "pending w = Got c # rest \<Longrightarrow> getch_while [] w = Some (Inr [c], w\<lparr>pending := rest\<rparr>)"
  by (subst getch_while.simps) (simp add: stdin_read1_def getch_while_nonempty)

lemma getch_while_Nothing:
  "pending w = Nothing # rest \<Longrightarrow> getch_while [] w = getch_while [] (w\<lparr>pending := rest\<rparr>)"
  by (subst getch_while.simps) (simp add: stdin_read1_def)

lemma getch_while_KeyboardInterrupt:
  "pending w = Raises KeyboardInterrupt # rest \<Longrightarrow>
     getch_while [] w = Some (Inl KeyboardInterrupt, w\<lparr>pending := rest\<rparr>)"
  by (subst getch_while.simps) (simp add: stdin_read1_def)

lemma getch_while_Raises:
  "pending w = Raises e # rest \<Longrightarrow> e \<noteq> KeyboardInterrupt \<Longrightarrow>
     getch_while [] w = getch_while [] (w\<lparr>pending := rest\<rparr>)"
  by (subst getch_while.simps) (simp add: stdin_read1_def split: exn.splits)

lemma world_pending_twice:
  "w' = (w\<lparr>pending := p\<rparr>)\<lparr>pending := pending w'\<rparr> \<Longrightarrow> w' = w\<lparr>pending := pending w'\<rparr>"
  by simp

text \<open>Facts about every call of the loop that returns, by induction on its unfolding.\<close>

lemma getch_while_frame:
  assumes "getch_while char w = Some y"
  shows "snd y = w\<lparr>pending := pending (snd y)\<rparr>"
proof (rule getch_while.raw_induct
    [where P = "\<lambda>char w y. snd y = w\<lparr>pending := pending (snd y)\<rparr>", OF _ assms])
  fix loop :: "string \<Rightarrow> world \<Rightarrow> (string result \<times> world) option" and char w y
  assume IH: "\<And>char w y. loop char w = Some y \<Longrightarrow> snd y = w\<lparr>pending := pending (snd y)\<rparr>"
    and step: "(if char = [] then case stdin_read1 w of
           (Inl KeyboardInterrupt, w') \<Rightarrow> Some (Inl KeyboardInterrupt, w')
           | (Inl _, w') \<Rightarrow> loop char w'
           | (Inr c, w') \<Rightarrow> loop c w'
      else Some (Inr char, w)) = Some y"
  have rd: "snd (stdin_read1 w) = w\<lparr>pending := pending (snd (stdin_read1 w))\<rparr>"
    by (simp add: stdin_read1_def split: list.splits read_outcome.splits)
  show "snd y = w\<lparr>pending := pending (snd y)\<rparr>"
  proof (cases "char = []")
    case False
    with step show ?thesis by auto
  next
    case True
    obtain r w1 where r: "stdin_read1 w = (r, w1)" by (cases "stdin_read1 w")
    with rd have w1: "w1 = w\<lparr>pending := pending w1\<rparr>" by simp
    show ?thesis
    proof (cases "r = Inl KeyboardInterrupt")
      case True
      with step \<open>char = []\<close> r w1 show ?thesis by auto
    next
      case False
      with step \<open>char = []\<close> r obtain c where "loop c w1 = Some y"
        by (auto split: sum.splits exn.splits)
      from IH[OF this] have "snd y = w1\<lparr>pending := pending (snd y)\<rparr>" .
      with w1 show ?thesis by (metis world_pending_twice)
    qed
  qed
qed

lemma getch_while_result:
  assumes "getch_while char w = Some y"
  shows "case fst y of Inl e \<Rightarrow> e = KeyboardInterrupt
         | Inr s \<Rightarrow> s \<noteq> [] \<and> (s = char \<or> length s = 1)"
proof (rule getch_while.raw_induct
    [where P = "\<lambda>char w y. case fst y of Inl e \<Rightarrow> e = KeyboardInterrupt
                  | Inr s \<Rightarrow> s \<noteq> [] \<and> (s = char \<or> length s = 1)", OF _ assms])
  fix loop :: "string \<Rightarrow> world \<Rightarrow> (string result \<times> world) option" and char w y
  assume IH: "\<And>char w y. loop char w = Some y \<Longrightarrow>
        (case fst y of Inl e \<Rightarrow> e = KeyboardInterrupt
         | Inr s \<Rightarrow> s \<noteq> [] \<and> (s = char \<or> length s = 1))"
    and step: "(if char = [] then case stdin_read1 w of
           (Inl KeyboardInterrupt, w') \<Rightarrow> Some (Inl KeyboardInterrupt, w')
           | (Inl _, w') \<Rightarrow> loop char w'
           | (Inr c, w') \<Rightarrow> loop c w'
      else Some (Inr char, w)) = Some y"
  have rd: "case fst (stdin_read1 w) of Inl e \<Rightarrow> True | Inr s \<Rightarrow> length s \<le> 1"
    by (simp add: stdin_read1_def split: list.splits read_outcome.splits)
  show "case fst y of Inl e \<Rightarrow> e = KeyboardInterrupt
        | Inr s \<Rightarrow> s \<noteq> [] \<and> (s = char \<or> length s = 1)"
  proof (cases "char = []")
    case False
    with step show ?thesis by auto
  next
    case True
    obtain r w1 where r: "stdin_read1 w = (r, w1)" by (cases "stdin_read1 w")
    show ?thesis
    proof (cases r)
      case (Inl e)
      show ?thesis
      proof (cases "e = KeyboardInterrupt")
        case True
        with step \<open>char = []\<close> r Inl show ?thesis by auto
      next
        case False
        with step \<open>char = []\<close> r Inl have "loop [] w1 = Some y" by (auto split: exn.splits)
        from IH[OF this] \<open>char = []\<close> show ?thesis by (auto split: sum.splits)
      qed
    next
      case (Inr c)
      with rd r have c: "length c \<le> 1" by simp
      from step \<open>char = []\<close> r Inr have "loop c w1 = Some y" by auto
      from IH[OF this] c \<open>char = []\<close> show ?thesis by (cases c) (auto split: sum.splits)
    qed
  qed
qed

lemma getch_while_exhausted:
  assumes "getch_while char w = Some y"
  shows "char \<noteq> [] \<or> pending w \<noteq> []"
proof (rule getch_while.raw_induct
    [where P = "\<lambda>char w y. char \<noteq> [] \<or> pending w \<noteq> []", OF _ assms])
  fix loop :: "string \<Rightarrow> world \<Rightarrow> (string result \<times> world) option" and char w y
  assume IH: "\<And>char w y. loop char w = Some y \<Longrightarrow> char \<noteq> [] \<or> pending w \<noteq> []"
    and step: "(if char = [] then case stdin_read1 w of
           (Inl KeyboardInterrupt, w') \<Rightarrow> Some (Inl KeyboardInterrupt, w')
           | (Inl _, w') \<Rightarrow> loop char w'
           | (Inr c, w') \<Rightarrow> loop c w'
      else Some (Inr char, w)) = Some y"
  show "char \<noteq> [] \<or> pending w \<noteq> []"
  proof (rule ccontr)
    assume "\<not> (char \<noteq> [] \<or> pending w \<noteq> [])"
    then have c: "char = []" and p: "pending w = []" by auto
    with step have "loop [] w = Some y" by (simp add: stdin_read1_def)
    from IH[OF this] p show False by simp
  qed
qed

lemma passed_over_posix: "\<not> is_win p \<Longrightarrow> passed_over p x = passed_over [] x"
  by (simp add: passed_over_def is_win_def split: read_outcome.splits)

lemma passed_over_win: "is_win p \<Longrightarrow> passed_over p x = (x = Nothing)"
  by (simp add: passed_over_def split: read_outcome.splits)

lemma getch_while_passes_over:
  "\<forall>x\<in>set pre. passed_over [] x \<Longrightarrow> pending w = pre @ rest \<Longrightarrow>
     getch_while [] w = getch_while [] (w\<lparr>pending := rest\<rparr>)"
proof (induction pre arbitrary: w)
  case Nil
  then have "w\<lparr>pending := rest\<rparr> = w" by (cases w) auto
  then show ?case by simp
next
  case (Cons x pre)
  from Cons.prems have x: "passed_over [] x" and pre: "\<forall>x\<in>set pre. passed_over [] x"
    and p: "pending w = x # (pre @ rest)" by auto
  have "getch_while [] w = getch_while [] (w\<lparr>pending := pre @ rest\<rparr>)"
  proof (cases x)
    case (Got c)
    with x show ?thesis by (simp add: passed_over_def)
  next
    case Nothing
    with p show ?thesis by (simp add: getch_while_Nothing)
  next
    case (Raises e)
    with x p show ?thesis by (simp add: getch_while_Raises passed_over_def)
  qed
  also have "\<dots> = getch_while [] (w\<lparr>pending := rest\<rparr>)"
    using Cons.IH[OF pre, of "w\<lparr>pending := pre @ rest\<rparr>"] by simp
  finally show ?case .
qed

lemma getch_while_total: "Got c \<in> set (pending w) \<Longrightarrow> getch_while [] w \<noteq> None"
proof (induction "pending w" arbitrary: w)
  case Nil
  then show ?case by simp
next
  case (Cons x xs)
  from Cons(2) have p: "pending w = x # xs" by simp
  show ?case
  proof (cases x)
    case (Got d)
    with p show ?thesis by (simp add: getch_while_Got)
  next
    case Nothing
    with p Cons.prems have "Got c \<in> set xs" by auto
    with Cons(1)[of "w\<lparr>pending := xs\<rparr>"] Nothing p show ?thesis
      by (simp add: getch_while_Nothing)
  next
    case (Raises e)
    show ?thesis
    proof (cases "e = KeyboardInterrupt")
      case True
      with Raises p show ?thesis by (simp add: getch_while_KeyboardInterrupt)
    next
      case False
      from Raises p Cons.prems have "Got c \<in> set xs" by auto
      with Cons(1)[of "w\<lparr>pending := xs\<rparr>"] Raises p False show ?thesis
        by (simp add: getch_while_Raises)
    qed
  qed
qed

lemma msvcrt_getch_from_Got:
  "\<forall>x\<in>set pre. x = Nothing \<Longrightarrow> msvcrt_getch_from (pre @ Got c # rest) = Some (Inr c, rest)"
  by (induction pre) auto

lemma msvcrt_getch_from_Raises:
  "\<forall>x\<in>set pre. x = Nothing \<Longrightarrow> msvcrt_getch_from (pre @ Raises e # rest) = Some (Inl e, rest)"
  by (induction pre) auto

lemma msvcrt_getch_from_total: "Got c \<in> set xs \<Longrightarrow> msvcrt_getch_from xs \<noteq> None"
  by (induction xs rule: msvcrt_getch_from.induct) auto

lemma getch_posix_unfold: "getch_posix w = getch_while [] (snd (noncanonical_mode_posix w))"
  using noncanonical_mode_posix_frame(1)[of w]
  by (cases "noncanonical_mode_posix w") (simp add: getch_posix_def)

lemma getch_Got:
  assumes "pending w = pre @ Got c # rest" and "\<forall>x\<in>set pre. passed_over p x"
  shows "getch p w = Some (Inr [c], after_read p w rest)"
proof (cases "is_win p")
  case True
  with assms show ?thesis
    by (simp add: getch_def getch_win_def msvcrt_getch_def msvcrt_getch_from_Got
        passed_over_win noncanonical_mode_def noncanonical_mode_win_def return_def)
next
  case False
  let ?w1 = "snd (noncanonical_mode_posix w)"
  from assms False have pre: "\<forall>x\<in>set pre. passed_over [] x" by (simp add: passed_over_posix)
  have "pending ?w1 = pre @ Got c # rest"
    using assms(1) by (simp add: noncanonical_mode_posix_frame)
  from getch_while_passes_over[OF pre this]
  have "getch_while [] ?w1 = getch_while [] (?w1\<lparr>pending := Got c # rest\<rparr>)" .
  also have "\<dots> = Some (Inr [c], ?w1\<lparr>pending := rest\<rparr>)"
    by (simp add: getch_while_Got)
  finally show ?thesis
    using False by (simp add: getch_def getch_posix_unfold noncanonical_mode_def)
qed

lemma getch_KeyboardInterrupt:
  assumes "pending w = pre @ Raises KeyboardInterrupt # rest"
    and "\<forall>x\<in>set pre. passed_over p x"
  shows "getch p w = Some (Inl KeyboardInterrupt, after_read p w rest)"
proof (cases "is_win p")
  case True
  with assms show ?thesis
    by (simp add: getch_def getch_win_def msvcrt_getch_def msvcrt_getch_from_Raises
        passed_over_win noncanonical_mode_def noncanonical_mode_win_def return_def)
next
  case False
  let ?w1 = "snd (noncanonical_mode_posix w)"
  from assms False have pre: "\<forall>x\<in>set pre. passed_over [] x" by (simp add: passed_over_posix)
  have "pending ?w1 = pre @ Raises KeyboardInterrupt # rest"
    using assms(1) by (simp add: noncanonical_mode_posix_frame)
  from getch_while_passes_over[OF pre this]
  have "getch_while [] ?w1 = getch_while [] (?w1\<lparr>pending := Raises KeyboardInterrupt # rest\<rparr>)" .
  also have "\<dots> = Some (Inl KeyboardInterrupt, ?w1\<lparr>pending := rest\<rparr>)"
    by (simp add: getch_while_KeyboardInterrupt)
  finally show ?thesis
    using False by (simp add: getch_def getch_posix_unfold noncanonical_mode_def)
qed

lemma getch_Raises:
  assumes "pending w = Raises e # rest" and "\<not> passed_over p (Raises e)"
  shows "getch p w = Some (Inl e, after_read p w rest)"
proof (cases "is_win p")
  case True
  with assms show ?thesis
    by (simp add: getch_def getch_win_def msvcrt_getch_def noncanonical_mode_def
        noncanonical_mode_win_def return_def)
next
  case False
  with assms have "e = KeyboardInterrupt" by (simp add: passed_over_def)
  with getch_KeyboardInterrupt[of w "[]" rest p] assms show ?thesis by simp
qed

lemma getch_skip:
  assumes "pending w = x # rest" and "passed_over p x"
  shows "getch p w = getch p (w\<lparr>pending := rest\<rparr>)"
proof (cases "is_win p")
  case True
  with assms have "x = Nothing" by (simp add: passed_over_win)
  with assms True show ?thesis
    by (simp add: getch_def getch_win_def msvcrt_getch_def split: option.splits prod.splits)
next
  case False
  let ?w1 = "snd (noncanonical_mode_posix w)"
  from assms False have "\<forall>y\<in>set [x]. passed_over [] y" by (simp add: passed_over_posix)
  moreover have "pending ?w1 = [x] @ rest"
    using assms by (simp add: noncanonical_mode_posix_frame)
  ultimately have "getch_while [] ?w1 = getch_while [] (?w1\<lparr>pending := rest\<rparr>)"
    by (rule getch_while_passes_over)
  moreover have "snd (noncanonical_mode_posix (w\<lparr>pending := rest\<rparr>)) = ?w1\<lparr>pending := rest\<rparr>"
    using noncanonical_mode_pending_commute[where p = p and w = w and xs = rest] False
    by (simp add: noncanonical_mode_def)
  ultimately show ?thesis using False by (simp add: getch_def getch_posix_unfold)
qed

lemma getch_exhausted: "pending w = [] \<Longrightarrow> getch p w = None"
proof (cases "is_win p")
  case True
  assume "pending w = []"
  with True show ?thesis by (simp add: getch_def getch_win_def msvcrt_getch_def)
next
  case False
  assume "pending w = []"
  then have "pending (snd (noncanonical_mode_posix w)) = []"
    by (simp add: noncanonical_mode_posix_frame)
  then have "getch_while [] (snd (noncanonical_mode_posix w)) = None"
    using getch_while_exhausted[of "[]" "snd (noncanonical_mode_posix w)"]
    by (cases "getch_while [] (snd (noncanonical_mode_posix w))") auto
  with False show ?thesis by (simp add: getch_def getch_posix_unfold)
qed

lemma getch_total:
  assumes "Got c \<in> set (pending w)"
  shows "getch p w \<noteq> None"
proof (cases "is_win p")
  case True
  from msvcrt_getch_from_total[OF assms]
  obtain r rest where "msvcrt_getch_from (pending w) = Some (r, rest)" by auto
  with True show ?thesis
    by (cases r) (simp_all add: getch_def getch_win_def msvcrt_getch_def)
next
  case False
  from assms have "Got c \<in> set (pending (snd (noncanonical_mode_posix w)))"
    by (simp add: noncanonical_mode_posix_frame)
  from getch_while_total[OF this] False show ?thesis
    by (simp add: getch_def getch_posix_unfold)
qed

lemma getch_length: "getch p w = Some (Inr s, w') \<Longrightarrow> length s = 1"
proof (cases "is_win p")
  case True
  assume "getch p w = Some (Inr s, w')"
  with True show ?thesis
    by (auto simp: getch_def getch_win_def split: option.splits prod.splits sum.splits)
next
  case False
  assume "getch p w = Some (Inr s, w')"
  with False have "getch_while [] (snd (noncanonical_mode_posix w)) = Some (Inr s, w')"
    by (simp add: getch_def getch_posix_unfold)
  from getch_while_result[OF this] show ?thesis by auto
qed

section \<open>Properties of the line input loop\<close>

lemma of_char_eq_numeral:
  "(of_char c = (0x7f::nat)) = (c = CHR 0x7F)"
  "(of_char c = (0x08::nat)) = (c = CHR 0x08)"
  "(of_char c = (0x1b::nat)) = (c = CHR 0x1B)"
  using of_char_eq_iff[of c "CHR 0x7F", where 'a = nat]
    of_char_eq_iff[of c "CHR 0x08", where 'a = nat]
    of_char_eq_iff[of c "CHR 0x1B", where 'a = nat]
  by simp_all

text \<open>One turn of the loop, by what the handle answers next.\<close>

lemma line_input_while_key:
  assumes "pending w = Got c # rest"
  shows "line_input_while p prompt line w =
     (if c = CHR 0x0A \<or> c = CHR 0x0D then Some (Inr line, after_read p w rest)
      else if c = CHR 0x7F \<or> c = CHR 0x08 then
        (if line \<noteq> []
         then line_input_while p prompt (butlast line)
                ((after_read p w rest)\<lparr>stdout := stdout w @ [Write (redraw prompt (butlast line))]\<rparr>)
         else line_input_while p prompt [] (after_read p w rest))
      else if c = CHR 0x1B then line_input_while p prompt line (after_read p w rest)
      else line_input_while p prompt (line @ [c])
             ((after_read p w rest)\<lparr>stdout := stdout w @ [Write [c], Flush]\<rparr>))"
proof -
  have g: "getch p w = Some (Inr [c], after_read p w rest)"
    using getch_Got[of w "[]" c rest p] assms by simp
  show ?thesis
    by (subst line_input_while.simps)
      (simp add: g noncanonical_mode_stdout ord_def stdout_write_def stdout_flush_def
        of_char_eq_numeral)
qed

lemma line_input_while_skip:
  assumes "pending w = x # rest" and "passed_over p x"
  shows "line_input_while p prompt line w = line_input_while p prompt line (w\<lparr>pending := rest\<rparr>)"
  by (subst line_input_while.simps, subst (2) line_input_while.simps)
    (simp add: getch_skip[OF assms])

lemma line_input_while_Raises:
  assumes "pending w = Raises e # rest" and "\<not> passed_over p (Raises e)"
  shows "line_input_while p prompt line w = Some (Inl e, after_read p w rest)"
  by (subst line_input_while.simps) (simp add: getch_Raises[OF assms])

lemma line_input_while_exhausted:
  assumes "pending w = []"
  shows "line_input_while p prompt line w = None"
  by (subst line_input_while.simps) (simp add: getch_exhausted[OF assms])

text \<open>Whole runs of the loop, by induction on the answers of the handle.\<close>

lemma line_input_while_printable:
  assumes "filter (\<lambda>x. \<not> passed_over p x) pre = map Got cs"
    and "\<forall>c\<in>set cs. c \<noteq> CHR 0x0A \<and> c \<noteq> CHR 0x0D \<and> c \<noteq> CHR 0x08 \<and> c \<noteq> CHR 0x7F \<and> c \<noteq> CHR 0x1B"
    and "t = CHR 0x0A \<or> t = CHR 0x0D"
    and "pending w = pre @ Got t # rest"
  shows "\<exists>w'. line_input_while p prompt line w = Some (Inr (line @ cs), w') \<and> pending w' = rest \<and>
           stdout w' = stdout w @ concat (map (\<lambda>c. [Write [c], Flush]) cs)"
  using assms
proof (induction pre arbitrary: cs line w)
  case Nil
  then have "cs = []" by simp
  with Nil.prems line_input_while_key[of w t rest p prompt line] show ?case by auto
next
  case (Cons x pre)
  show ?case
  proof (cases "passed_over p x")
    case True
    with Cons.prems have f: "filter (\<lambda>x. \<not> passed_over p x) pre = map Got cs" by simp
    let ?w = "w\<lparr>pending := pre @ Got t # rest\<rparr>"
    have "line_input_while p prompt line w = line_input_while p prompt line ?w"
      using Cons.prems(4) True by (intro line_input_while_skip) auto
    moreover from Cons.IH[OF f Cons.prems(2) Cons.prems(3), of ?w line]
    obtain w' where "line_input_while p prompt line ?w = Some (Inr (line @ cs), w')" "pending w' = rest"
      "stdout w' = stdout w @ concat (map (\<lambda>c. [Write [c], Flush]) cs)" by auto
    ultimately show ?thesis by auto
  next
    case False
    with Cons.prems(1) obtain c cs' where x: "x = Got c" and cs: "cs = c # cs'"
      and f: "filter (\<lambda>x. \<not> passed_over p x) pre = map Got cs'" by (cases cs) auto
    from Cons.prems(2) cs have c: "c \<noteq> CHR 0x0A" "c \<noteq> CHR 0x0D" "c \<noteq> CHR 0x08" "c \<noteq> CHR 0x7F" "c \<noteq> CHR 0x1B"
      and cs': "\<forall>c\<in>set cs'. c \<noteq> CHR 0x0A \<and> c \<noteq> CHR 0x0D \<and> c \<noteq> CHR 0x08 \<and> c \<noteq> CHR 0x7F \<and> c \<noteq> CHR 0x1B"
      by auto
    let ?w = "(after_read p w (pre @ Got t # rest))\<lparr>stdout := stdout w @ [Write [c], Flush]\<rparr>"
    from Cons.prems(4) x have "pending w = Got c # (pre @ Got t # rest)" by simp
    from line_input_while_key[OF this, of p prompt line] c
    have "line_input_while p prompt line w = line_input_while p prompt (line @ [c]) ?w" by simp
    moreover from Cons.IH[OF f cs' Cons.prems(3), of ?w "line @ [c]"]
    obtain w' where "line_input_while p prompt (line @ [c]) ?w = Some (Inr ((line @ [c]) @ cs'), w')" "pending w' = rest"
      "stdout w' = stdout ?w @ concat (map (\<lambda>c. [Write [c], Flush]) cs')" by auto
    ultimately show ?thesis using cs by auto
  qed
qed

lemma line_input_while_returns:
  assumes "\<forall>x\<in>set pre. passed_over p x \<or> (\<exists>c. x = Got c)"
    and "t = CHR 0x0A \<or> t = CHR 0x0D"
    and "pending w = pre @ Got t # rest"
  shows "\<exists>l w'. line_input_while p prompt line w = Some (Inr l, w')"
  using assms
proof (induction pre arbitrary: line w)
  case Nil
  with line_input_while_key[of w t rest p prompt line] show ?case by auto
next
  case (Cons x pre)
  from Cons.prems have pre: "\<forall>x\<in>set pre. passed_over p x \<or> (\<exists>c. x = Got c)" by simp
  note IH = Cons.IH[OF pre Cons.prems(2)]
  show ?case
  proof (cases "passed_over p x")
    case True
    let ?w = "w\<lparr>pending := pre @ Got t # rest\<rparr>"
    have "line_input_while p prompt line w = line_input_while p prompt line ?w"
      using Cons.prems(3) True by (intro line_input_while_skip) auto
    with IH[of ?w line] show ?thesis by auto
  next
    case False
    with Cons.prems(1) obtain c where x: "x = Got c" by auto
    with Cons.prems(3) have p: "pending w = Got c # (pre @ Got t # rest)" by simp
    let ?a = "after_read p w (pre @ Got t # rest)"
    note key = line_input_while_key[OF p, of p prompt line]
    consider (nl) "c = CHR 0x0A \<or> c = CHR 0x0D"
      | (bs) "\<not> (c = CHR 0x0A \<or> c = CHR 0x0D)" "c = CHR 0x7F \<or> c = CHR 0x08" "line \<noteq> []"
      | (bs0) "\<not> (c = CHR 0x0A \<or> c = CHR 0x0D)" "c = CHR 0x7F \<or> c = CHR 0x08" "line = []"
      | (esc) "\<not> (c = CHR 0x0A \<or> c = CHR 0x0D)" "\<not> (c = CHR 0x7F \<or> c = CHR 0x08)" "c = CHR 0x1B"
      | (other) "\<not> (c = CHR 0x0A \<or> c = CHR 0x0D)" "\<not> (c = CHR 0x7F \<or> c = CHR 0x08)" "c \<noteq> CHR 0x1B"
      by blast
    then show ?thesis
    proof cases
      case nl
      with key show ?thesis by simp
    next
      case bs
      with key IH[of "?a\<lparr>stdout := stdout w @ [Write (redraw prompt (butlast line))]\<rparr>" "butlast line"]
      show ?thesis by simp
    next
      case bs0
      with key IH[of ?a "[]"] show ?thesis by simp
    next
      case esc
      with key IH[of ?a line] show ?thesis by simp
    next
      case other
      with key IH[of "?a\<lparr>stdout := stdout w @ [Write [c], Flush]\<rparr>" "line @ [c]"]
      show ?thesis by simp
    qed
  qed
qed

lemma line_input_while_escape:
  assumes "pending w2 = filter (\<lambda>x. x \<noteq> Got (CHR 0x1B)) (pending w)" and "stdout w2 = stdout w"
  shows "observable (line_input_while p prompt line w2) = observable (line_input_while p prompt line w)"
  using assms
proof (induction "pending w" arbitrary: line w w2)
  case Nil
  then have "pending w = []" "pending w2 = []" by auto
  then show ?case by (simp add: line_input_while_exhausted)
next
  case (Cons x xs)
  from Cons(2) have pw: "pending w = x # xs" by simp
  let ?f = "filter (\<lambda>x. x \<noteq> Got (CHR 0x1B))"
  show ?case
  proof (cases x)
    case Nothing
    with pw Cons.prems have pw2: "pending w2 = Nothing # ?f xs" by simp
    have po: "passed_over p Nothing" by (simp add: passed_over_def)
    have "line_input_while p prompt line w = line_input_while p prompt line (w\<lparr>pending := xs\<rparr>)"
      using pw Nothing po by (intro line_input_while_skip) auto
    moreover have "line_input_while p prompt line w2 = line_input_while p prompt line (w2\<lparr>pending := ?f xs\<rparr>)"
      using pw2 po by (intro line_input_while_skip) auto
    moreover have "observable (line_input_while p prompt line (w2\<lparr>pending := ?f xs\<rparr>)) =
        observable (line_input_while p prompt line (w\<lparr>pending := xs\<rparr>))"
      using Cons.prems by (intro Cons(1)) auto
    ultimately show ?thesis by simp
  next
    case (Raises e)
    with pw Cons.prems have pw2: "pending w2 = Raises e # ?f xs" by simp
    show ?thesis
    proof (cases "passed_over p (Raises e)")
      case True
      have "line_input_while p prompt line w = line_input_while p prompt line (w\<lparr>pending := xs\<rparr>)"
        using pw Raises True by (intro line_input_while_skip) auto
      moreover have "line_input_while p prompt line w2 = line_input_while p prompt line (w2\<lparr>pending := ?f xs\<rparr>)"
        using pw2 True by (intro line_input_while_skip) auto
      moreover have "observable (line_input_while p prompt line (w2\<lparr>pending := ?f xs\<rparr>)) =
          observable (line_input_while p prompt line (w\<lparr>pending := xs\<rparr>))"
        using Cons.prems by (intro Cons(1)) auto
      ultimately show ?thesis by simp
    next
      case False
      from pw Raises have "pending w = Raises e # xs" by simp
      from line_input_while_Raises[OF this False] line_input_while_Raises[OF pw2 False] Cons.prems(2)
      show ?thesis by (simp add: observable_def)
    qed
  next
    case (Got c)
    with pw have p: "pending w = Got c # xs" by simp
    note key = line_input_while_key[OF p, of p prompt line]
    show ?thesis
    proof (cases "c = CHR 0x1B")
      case True
      with p Cons.prems have "pending w2 = ?f (pending (after_read p w xs))" by simp
      moreover have "stdout w2 = stdout (after_read p w xs)" using Cons.prems by simp
      moreover have "xs = pending (after_read p w xs)" by simp
      ultimately have "observable (line_input_while p prompt line w2) =
          observable (line_input_while p prompt line (after_read p w xs))"
        by (intro Cons(1)) 
      with key True show ?thesis by simp
    next
      case False
      with p Cons.prems have p2: "pending w2 = Got c # ?f xs" by simp
      note key2 = line_input_while_key[OF p2, of p prompt line]
      let ?a = "after_read p w xs" and ?a2 = "after_read p w2 (?f xs)"
      have IH: "\<And>l out. observable (line_input_while p prompt l (?a2\<lparr>stdout := out\<rparr>)) =
           observable (line_input_while p prompt l (?a\<lparr>stdout := out\<rparr>))"
        by (intro Cons(1)) auto
      have IH0: "\<And>l. observable (line_input_while p prompt l ?a2) =
           observable (line_input_while p prompt l ?a)"
        using Cons.prems by (intro Cons(1)) auto
      from key key2 IH IH0 False Cons.prems(2) show ?thesis by (simp add: observable_def)
    qed
  qed
qed

section \<open>The properties claimed of the module\<close>

lemmas example_defs =
  console_def redirected_def linux_termios_def cooked_def is_win_def passed_over_def
  save_mode_def noncanonical_mode_def restore_mode_def
  save_mode_posix_def noncanonical_mode_posix_def restore_mode_posix_def

lemma world_stdout_same: "stdout v = s \<Longrightarrow> v\<lparr>stdout := s\<rparr> = v"
  by (cases v) auto

lemma line_input_escape_observable:
  "observable (line_input p prompt (w\<lparr>pending := filter (\<lambda>x. x \<noteq> Got (CHR 0x1B)) (pending w)\<rparr>)) =
   observable (line_input p prompt w)"
  unfolding line_input_def
  by (rule line_input_while_escape) (simp_all add: stdout_write_def)

lemma getch_keeps_saved_state:
  assumes "oldattr_allocated w" and "getch p w = Some (r, w')"
  shows "keeps_saved_state w w'"
proof (cases "is_win p")
  case True
  with assms(2) obtain xs where "w' = w\<lparr>pending := xs\<rparr>"
    by (auto simp: getch_def getch_win_def msvcrt_getch_def split: option.splits sum.splits)
  with assms(1) show ?thesis by (simp add: keeps_saved_state_def saved_pending_update)
next
  case False
  let ?w1 = "snd (noncanonical_mode_posix w)"
  from assms(2) False have "getch_while [] ?w1 = Some (r, w')"
    by (simp add: getch_def getch_posix_unfold)
  from getch_while_frame[OF this] have "w' = ?w1\<lparr>pending := pending w'\<rparr>" by simp
  then have "keeps_saved_state ?w1 w' = keeps_saved_state ?w1 ?w1"
    by (metis keeps_saved_state_def saved_pending_update)
  with noncanonical_mode_posix_saved[OF assms(1)] show ?thesis
    by (simp add: keeps_saved_state_def)
qed

lemma getch_noblock_keeps_saved_state:
  assumes "oldattr_allocated w" and "getch_noblock p w = Some (r, w')"
  shows "keeps_saved_state w w'"
proof (cases "is_win p")
  case True
  with assms(2) obtain xs where "w' = w\<lparr>pending := xs\<rparr> \<or> w' = w"
    by (auto simp: getch_noblock_def getch_noblock_win_def msvcrt_kbhit_def getch_win_def
        msvcrt_getch_def
        split: option.splits sum.splits list.splits read_outcome.splits if_splits)
  with assms(1) show ?thesis by (auto simp: keeps_saved_state_def saved_pending_update)
next
  case False
  let ?w1 = "snd (noncanonical_mode_posix w)"
  obtain u where u: "noncanonical_mode_posix w = (Inr (), u)"
    using noncanonical_mode_posix_frame(1)[of w] by (cases "noncanonical_mode_posix w") auto
  with assms(2) False obtain xs where "w' = u\<lparr>pending := xs\<rparr> \<or> w' = u"
    by (auto simp: getch_noblock_def getch_noblock_posix_def stdin_read1_def
        split: list.splits read_outcome.splits exn.splits if_splits)
  moreover have "keeps_saved_state w u"
    using noncanonical_mode_posix_saved[OF assms(1)] u by (simp add: keeps_saved_state_def)
  ultimately show ?thesis by (auto simp: keeps_saved_state_def saved_pending_update)
qed

text \<open>The heap discipline holds while nothing is saved, and the line reader keeps it
  and the saved state as well, so it holds in every world the module can reach.\<close>

lemma oldattr_allocated_initially: "oldattr w = None \<Longrightarrow> oldattr_allocated w"
  by (simp add: oldattr_allocated_def)

lemma keeps_saved_state_trans:
  "keeps_saved_state u v \<Longrightarrow> keeps_saved_state v w \<Longrightarrow> keeps_saved_state u w"
  by (simp add: keeps_saved_state_def)

lemma keeps_saved_state_stdout:
  "oldattr_allocated w \<Longrightarrow> keeps_saved_state w (w\<lparr>stdout := out\<rparr>)"
  by (auto simp: keeps_saved_state_def saved_state_def oldattr_allocated_def read_attributes_def
      split: option.splits)

lemma line_input_while_keeps_saved_state:
  assumes "line_input_while p prompt line w = Some y"
  shows "oldattr_allocated w \<longrightarrow> keeps_saved_state w (snd y)"
proof (rule line_input_while.raw_induct
    [where P = "\<lambda>p prompt line w y. oldattr_allocated w \<longrightarrow> keeps_saved_state w (snd y)",
      OF _ assms])
  fix loop :: "string \<Rightarrow> string \<Rightarrow> string \<Rightarrow> world \<Rightarrow> (string result \<times> world) option"
    and p prompt line w y
  assume IH: "\<And>p prompt line w y. loop p prompt line w = Some y \<Longrightarrow>
        oldattr_allocated w \<longrightarrow> keeps_saved_state w (snd y)"
    and step: "(case getch p w of
        None \<Rightarrow> None
      | Some (Inl e, w1) \<Rightarrow> Some (Inl e, w1)
      | Some (Inr char, w1) \<Rightarrow>
          (case ord char of
             Inl e \<Rightarrow> Some (Inl e, w1)
           | Inr code \<Rightarrow>
               (if char = [CHR 0x0A] \<or> char = [CHR 0x0D] then Some (Inr line, w1)
                else if code = 0x7f \<or> code = 0x08 then
                  (if length line > 0
                   then loop p prompt (butlast line)
                          (snd (stdout_write (redraw prompt (butlast line)) w1))
                   else loop p prompt line w1)
                else if code = 0x1b then loop p prompt line w1
                else loop p prompt (line @ char)
                       (snd (stdout_flush (snd (stdout_write char w1))))))) = Some y"
  show "oldattr_allocated w \<longrightarrow> keeps_saved_state w (snd y)"
  proof
    assume a: "oldattr_allocated w"
    from step obtain r w1 where g: "getch p w = Some (r, w1)"
      by (cases "getch p w") auto
    from getch_keeps_saved_state[OF a g] have k1: "keeps_saved_state w w1" .
    then have a1: "oldattr_allocated w1" by (simp add: keeps_saved_state_def)
    have via: "keeps_saved_state w (snd y)"
      if "loop p' prompt' line' (w1\<lparr>stdout := out\<rparr>) = Some y" for p' prompt' line' out
    proof -
      from keeps_saved_state_stdout[OF a1, of out]
      have k2: "keeps_saved_state w1 (w1\<lparr>stdout := out\<rparr>)" .
      then have "oldattr_allocated (w1\<lparr>stdout := out\<rparr>)" by (simp add: keeps_saved_state_def)
      with IH[OF that] have "keeps_saved_state (w1\<lparr>stdout := out\<rparr>) (snd y)" by simp
      with k1 k2 show ?thesis by (blast intro: keeps_saved_state_trans)
    qed
    have via0: "keeps_saved_state w (snd y)" if "loop p' prompt' line' w1 = Some y" for p' prompt' line'
      using IH[OF that] a1 k1 by (blast intro: keeps_saved_state_trans)
    from step g k1 via via0 show "keeps_saved_state w (snd y)"
      by (auto simp: stdout_write_def stdout_flush_def split: sum.splits if_splits)
  qed
qed

lemma line_input_keeps_saved_state:
  assumes "oldattr_allocated w" and "line_input p prompt w = Some (r, w')"
  shows "keeps_saved_state w w'"
proof -
  let ?w0 = "snd (stdout_write prompt w)"
  have k: "keeps_saved_state w ?w0"
    using keeps_saved_state_stdout[OF assms(1)] by (simp add: stdout_write_def)
  then have "oldattr_allocated ?w0" by (simp add: keeps_saved_state_def)
  with line_input_while_keeps_saved_state[of p prompt "[]" ?w0 "(r, w')"] assms(2)
  have "keeps_saved_state ?w0 w'" by (simp add: line_input_def)
  with k show ?thesis by (rule keeps_saved_state_trans)
qed

text \<open>
  Claim C1, for the termios variant. In the termios variant, for every input handle: when the read
  inside \<^verbatim>\<open>getch_noblock\<close> returns a raw newline, \<^verbatim>\<open>getch_noblock\<close> returns a
  carriage return, not a newline.
\<close>

theorem getch_noblock_newline_posix:
  assumes "\<not> is_win sys_platform" and "pending w = Got (CHR 0x0A) # rest"
  shows "getch_noblock sys_platform w = Some (Inr [CHR 0x0D], after_read sys_platform w rest)"
proof -
  obtain w1 where w1: "noncanonical_mode_posix w = (Inr (), w1)"
    using noncanonical_mode_posix_frame(1)[of w] by (cases "noncanonical_mode_posix w") auto
  then have "pending w1 = Got (CHR 0x0A) # rest"
    using noncanonical_mode_posix_frame(2)[of w] assms(2) by simp
  then have "stdin_read1 w1 = (Inr [CHR 0x0A], w1\<lparr>pending := rest\<rparr>)"
    by (simp add: stdin_read1_def)
  with w1 assms(1) show ?thesis
    by (simp add: getch_noblock_def getch_noblock_posix_def noncanonical_mode_def)
qed

theorem getch_noblock_newline_posix_witness:
  "\<not> is_win ''linux'' \<and> pending (console [Got (CHR 0x0A)]) = [Got (CHR 0x0A)] \<and>
   map_option fst (getch_noblock ''linux'' (console [Got (CHR 0x0A)])) = Some (Inr [CHR 0x0D])"
proof -
  have h: "\<not> is_win ''linux''" "pending (console [Got (CHR 0x0A)]) = Got (CHR 0x0A) # []"
    by (simp_all add: is_win_def console_def)
  from getch_noblock_newline_posix[OF h] h show ?thesis by simp
qed

text \<open>
  Claim C1 does not extend to the msvcrt variant, which has no such step: there a
  newline keystroke comes back as a newline.
\<close>

theorem getch_noblock_newline_win_counterexample:
  "is_win ''win32'' \<and>
   map_option fst (getch_noblock ''win32'' (console [Got (CHR 0x0A)])) = Some (Inr [CHR 0x0A])"
  by (simp add: is_win_def getch_noblock_def getch_noblock_win_def msvcrt_kbhit_def
      getch_win_def msvcrt_getch_def console_def)

text \<open>
  Claim C2. When the handle delivers the printable characters \<open>cs\<close> (none of them
  newline, carriage return, backspace 0x08, delete 0x7f or escape 0x1b), with any
  waiting in between, and then a newline or a carriage return, \<^verbatim>\<open>line_input\<close>
  returns exactly \<open>cs\<close>: the terminator is consumed, it is not part of the line, and
  no terminator occurs in the line. The output handle has received the prompt and
  the echo of each character, and nothing else.
\<close>

theorem line_input_returns_printable:
  assumes "pending w = pre @ Got t # rest"
    and "filter (\<lambda>x. \<not> passed_over sys_platform x) pre = map Got cs"
    and "\<forall>c\<in>set cs. c \<noteq> CHR 0x0A \<and> c \<noteq> CHR 0x0D \<and> c \<noteq> CHR 0x08 \<and> c \<noteq> CHR 0x7F \<and> c \<noteq> CHR 0x1B"
    and "t = CHR 0x0A \<or> t = CHR 0x0D"
  shows "(\<exists>w'. line_input sys_platform prompt w = Some (Inr cs, w') \<and> pending w' = rest \<and>
            stdout w' = stdout w @ Write prompt # concat (map (\<lambda>c. [Write [c], Flush]) cs)) \<and>
         CHR 0x0A \<notin> set cs \<and> CHR 0x0D \<notin> set cs"
proof -
  let ?w0 = "snd (stdout_write prompt w)"
  have "pending ?w0 = pre @ Got t # rest" using assms(1) by (simp add: stdout_write_def)
  from line_input_while_printable[OF assms(2,3,4) this, of prompt "[]"]
  obtain w' where "line_input_while sys_platform prompt [] ?w0 = Some (Inr cs, w')"
    "pending w' = rest" "stdout w' = stdout ?w0 @ concat (map (\<lambda>c. [Write [c], Flush]) cs)"
    by auto
  then have "line_input sys_platform prompt w = Some (Inr cs, w') \<and> pending w' = rest \<and>
      stdout w' = stdout w @ Write prompt # concat (map (\<lambda>c. [Write [c], Flush]) cs)"
    by (simp add: line_input_def stdout_write_def)
  moreover from assms(3) have "CHR 0x0A \<notin> set cs \<and> CHR 0x0D \<notin> set cs" by auto
  ultimately show ?thesis by blast
qed

theorem line_input_returns_printable_witness:
  "filter (\<lambda>x. \<not> passed_over ''linux'' x) [Got CHR ''H'', Nothing, Got CHR ''i'', Nothing] = map Got ''Hi'' \<and>
   observable (line_input ''linux'' ''> ''
      (console [Got CHR ''H'', Nothing, Got CHR ''i'', Nothing, Got (CHR 0x0A), Got CHR ''x''])) =
     Some (Inr ''Hi'', [Write ''> '', Write ''H'', Flush, Write ''i'', Flush]) \<and>
   map_option (\<lambda>y. pending (snd y)) (line_input ''linux'' ''> ''
      (console [Got CHR ''H'', Nothing, Got CHR ''i'', Nothing, Got (CHR 0x0A), Got CHR ''x''])) =
     Some [Got CHR ''x'']"
proof -
  let ?w = "console [Got CHR ''H'', Nothing, Got CHR ''i'', Nothing, Got (CHR 0x0A), Got CHR ''x'']"
  have h: "pending ?w = [Got CHR ''H'', Nothing, Got CHR ''i'', Nothing] @ Got (CHR 0x0A) # [Got CHR ''x'']"
    "filter (\<lambda>x. \<not> passed_over ''linux'' x) [Got CHR ''H'', Nothing, Got CHR ''i'', Nothing] = map Got ''Hi''"
    "\<forall>c\<in>set ''Hi''. c \<noteq> CHR 0x0A \<and> c \<noteq> CHR 0x0D \<and> c \<noteq> CHR 0x08 \<and> c \<noteq> CHR 0x7F \<and> c \<noteq> CHR 0x1B"
    "CHR 0x0A = CHR 0x0A \<or> CHR 0x0A = CHR 0x0D"
    by (simp_all add: console_def passed_over_def is_win_def)
  have "stdout ?w = []" by (simp add: console_def)
  with line_input_returns_printable[OF h, of "''> ''"] h(2) show ?thesis
    by (auto simp: observable_def)
qed

text \<open>
  Claim C3. When the loop of \<^verbatim>\<open>line_input\<close> holds the buffer \<open>line\<close> and reads a
  character of code 0x7f or 0x08, it goes on with the buffer less its last character.
  If the buffer was not empty, the output handle receives one write: a carriage
  return, blanks for the length of prompt and new buffer plus five, a carriage return,
  the prompt and the new buffer. If the buffer was empty it stays empty and nothing is
  written.
\<close>

theorem line_input_backspace:
  assumes "pending w = Got c # rest"
    and "of_char c = (0x7f::nat) \<or> of_char c = (0x08::nat)"
  shows "line_input_while sys_platform prompt line w =
     line_input_while sys_platform prompt (butlast line)
       ((after_read sys_platform w rest)
          \<lparr>stdout := stdout w @
             (if line = [] then []
              else [Write ([CHR 0x0D] @ replicate (length (prompt @ butlast line) + 5) CHR '' '' @
                           [CHR 0x0D] @ prompt @ butlast line)])\<rparr>) \<and>
     butlast line = take (length line - 1) line"
proof -
  from assms(2) have c: "c = CHR 0x7F \<or> c = CHR 0x08" by (simp add: of_char_eq_numeral)
  then have nt: "\<not> (c = CHR 0x0A \<or> c = CHR 0x0D)" by auto
  have same: "(after_read sys_platform w rest)\<lparr>stdout := stdout w\<rparr> = after_read sys_platform w rest"
    by (rule world_stdout_same) simp
  note key = line_input_while_key[OF assms(1), of sys_platform prompt line]
  show ?thesis
  proof (cases "line = []")
    case True
    with key c nt show ?thesis by (simp add: same)
  next
    case False
    with key c nt show ?thesis by (simp add: redraw_def butlast_conv_take)
  qed
qed

theorem line_input_backspace_witness:
  "of_char (CHR 0x7F) = (0x7f::nat) \<and> of_char (CHR 0x08) = (0x08::nat) \<and>
   observable (line_input_while ''linux'' ''> '' ''Hi'' (console [Got (CHR 0x7F), Got (CHR 0x0A)])) =
     Some (Inr ''H'', [Write ([CHR 0x0D] @ ''        '' @ [CHR 0x0D] @ ''> H'')]) \<and>
   observable (line_input_while ''linux'' ''> '' [] (console [Got (CHR 0x08), Got (CHR 0x0A)])) =
     Some (Inr [], [])"
proof -
  let ?w = "console [Got (CHR 0x7F), Got (CHR 0x0A)]"
  let ?v = "console [Got (CHR 0x08), Got (CHR 0x0A)]"
  have hw: "pending ?w = Got (CHR 0x7F) # [Got (CHR 0x0A)]"
    "of_char (CHR 0x7F) = (0x7f::nat) \<or> of_char (CHR 0x7F) = (0x08::nat)"
    by (simp_all add: console_def)
  have hv: "pending ?v = Got (CHR 0x08) # [Got (CHR 0x0A)]"
    "of_char (CHR 0x08) = (0x7f::nat) \<or> of_char (CHR 0x08) = (0x08::nat)"
    by (simp_all add: console_def)
  have so: "stdout ?w = []" "stdout ?v = []" by (simp_all add: console_def)
  let ?w1 = "(after_read ''linux'' ?w [Got (CHR 0x0A)])
     \<lparr>stdout := stdout ?w @ (if ''Hi'' = [] then []
         else [Write ([CHR 0x0D] @ replicate (length (''> '' @ butlast ''Hi'') + 5) CHR '' '' @
                      [CHR 0x0D] @ ''> '' @ butlast ''Hi'')])\<rparr>"
  let ?v1 = "(after_read ''linux'' ?v [Got (CHR 0x0A)])
     \<lparr>stdout := stdout ?v @ (if [] = ([]::string) then []
         else [Write ([CHR 0x0D] @ replicate (length (''> '' @ butlast []) + 5) CHR '' '' @
                      [CHR 0x0D] @ ''> '' @ butlast [])])\<rparr>"
  have "line_input_while ''linux'' ''> '' ''Hi'' ?w = line_input_while ''linux'' ''> '' (butlast ''Hi'') ?w1"
    using line_input_backspace[OF hw, of "''linux''" "''> ''" "''Hi''"] by blast
  also have "\<dots> = Some (Inr ''H'', after_read ''linux'' ?w1 [])"
    using line_input_while_key[of ?w1 "CHR 0x0A" "[]" "''linux''" "''> ''" "''H''"] by simp
  finally have 1: "observable (line_input_while ''linux'' ''> '' ''Hi'' ?w) =
     Some (Inr ''H'', [Write ([CHR 0x0D] @ ''        '' @ [CHR 0x0D] @ ''> H'')])"
    by (simp add: observable_def so eval_nat_numeral)
  have "line_input_while ''linux'' ''> '' [] ?v = line_input_while ''linux'' ''> '' (butlast []) ?v1"
    using line_input_backspace[OF hv, of "''linux''" "''> ''" "[]"] by blast
  also have "\<dots> = Some (Inr [], after_read ''linux'' ?v1 [])"
    using line_input_while_key[of ?v1 "CHR 0x0A" "[]" "''linux''" "''> ''" "[]"] by simp
  finally have 2: "observable (line_input_while ''linux'' ''> '' [] ?v) = Some (Inr [], [])"
    by (simp add: observable_def so)
  from 1 2 show ?thesis by simp
qed

text \<open>
  Claim C4. For every sequence of keys ended by a newline or a carriage return,
  \<^verbatim>\<open>line_input\<close> returns a line, and it returns the same line, having written the
  same output, when all escape bytes 0x1b are taken out of the input: an escape byte
  changes neither the buffer nor the output.
\<close>

theorem line_input_absorbs_escape:
  assumes "pending w = pre @ Got t # rest"
    and "t = CHR 0x0A \<or> t = CHR 0x0D"
    and "\<forall>x\<in>set pre. passed_over sys_platform x \<or> (\<exists>c. x = Got c)"
  shows "\<exists>l w1 w2.
     line_input sys_platform prompt w = Some (Inr l, w1) \<and>
     line_input sys_platform prompt
       (w\<lparr>pending := filter (\<lambda>x. x \<noteq> Got (CHR 0x1B)) (pending w)\<rparr>) = Some (Inr l, w2) \<and>
     stdout w2 = stdout w1"
proof -
  have "pending (snd (stdout_write prompt w)) = pre @ Got t # rest"
    using assms(1) by (simp add: stdout_write_def)
  from line_input_while_returns[OF assms(3,2) this, of prompt "[]"]
  obtain l w1 where 1: "line_input sys_platform prompt w = Some (Inr l, w1)"
    by (auto simp: line_input_def)
  with line_input_escape_observable[of sys_platform prompt w]
  obtain w2 where "line_input sys_platform prompt
       (w\<lparr>pending := filter (\<lambda>x. x \<noteq> Got (CHR 0x1B)) (pending w)\<rparr>) = Some (Inr l, w2)"
    "stdout w2 = stdout w1"
    by (auto simp: observable_def)
  with 1 show ?thesis by blast
qed

theorem line_input_absorbs_escape_witness:
  "list_all (\<lambda>x. passed_over ''linux'' x \<or> (\<exists>c. x = Got c))
     [Got (CHR 0x1B), Got CHR ''a'', Nothing, Got (CHR 0x1B)] \<and>
   observable (line_input ''linux'' ''> ''
     (console [Got (CHR 0x1B), Got CHR ''a'', Nothing, Got (CHR 0x1B), Got (CHR 0x0D)])) =
   observable (line_input ''linux'' ''> '' (console [Got CHR ''a'', Nothing, Got (CHR 0x0D)])) \<and>
   observable (line_input ''linux'' ''> ''
     (console [Got (CHR 0x1B), Got CHR ''a'', Nothing, Got (CHR 0x1B), Got (CHR 0x0D)])) \<noteq> None"
proof -
  let ?w = "console [Got (CHR 0x1B), Got CHR ''a'', Nothing, Got (CHR 0x1B), Got (CHR 0x0D)]"
  have h: "pending ?w = [Got (CHR 0x1B), Got CHR ''a'', Nothing, Got (CHR 0x1B)] @ Got (CHR 0x0D) # []"
    "CHR 0x0D = CHR 0x0A \<or> CHR 0x0D = CHR 0x0D"
    "\<forall>x\<in>set [Got (CHR 0x1B), Got CHR ''a'', Nothing, Got (CHR 0x1B)].
      passed_over ''linux'' x \<or> (\<exists>c. x = Got c)"
    by (simp_all add: console_def passed_over_def)
  have f: "?w\<lparr>pending := filter (\<lambda>x. x \<noteq> Got (CHR 0x1B)) (pending ?w)\<rparr> =
      console [Got CHR ''a'', Nothing, Got (CHR 0x0D)]"
    by (simp add: console_def)
  from line_input_absorbs_escape[OF h, of "''> ''"] h(3) show ?thesis
    unfolding f by (auto simp: observable_def)
qed

text \<open>
  Claim C5. A \<^verbatim>\<open>getch\<close> that returns a string returns one of length one, never the
  empty string. When the handle has a byte to come, \<^verbatim>\<open>getch\<close> terminates. When
  the answers before that byte are all of the kind \<^verbatim>\<open>getch\<close> passes over (a read
  that timed out; in the termios variant also an exception other than
  \<^verbatim>\<open>KeyboardInterrupt\<close>), it reads again and again, consumes them, and returns
  that byte.
\<close>

theorem getch_returns_one_character:
  "(\<forall>s w'. getch sys_platform w = Some (Inr s, w') \<longrightarrow> length s = 1) \<and>
   (Got c \<in> set (pending w) \<longrightarrow> getch sys_platform w \<noteq> None) \<and>
   (pending w = pre @ Got c # rest \<and> (\<forall>x\<in>set pre. passed_over sys_platform x) \<longrightarrow>
      getch sys_platform w = Some (Inr [c], after_read sys_platform w rest))"
  using getch_length[of sys_platform w] getch_total[of c w sys_platform]
    getch_Got[of w pre c rest sys_platform]
  by blast

theorem getch_returns_one_character_witness:
  "Got CHR ''a'' \<in> set (pending (console [Nothing, Raises OSError, Nothing, Got CHR ''a'', Got CHR ''b''])) \<and>
   list_all (passed_over ''linux'') [Nothing, Raises OSError, Nothing] \<and>
   map_option fst (getch ''linux'' (console [Nothing, Raises OSError, Nothing, Got CHR ''a'', Got CHR ''b'']))
     = Some (Inr ''a'') \<and>
   map_option (\<lambda>y. pending (snd y))
     (getch ''linux'' (console [Nothing, Raises OSError, Nothing, Got CHR ''a'', Got CHR ''b'']))
     = Some [Got CHR ''b'']"
proof -
  let ?w = "console [Nothing, Raises OSError, Nothing, Got CHR ''a'', Got CHR ''b'']"
  have h: "pending ?w = [Nothing, Raises OSError, Nothing] @ Got CHR ''a'' # [Got CHR ''b'']"
    "\<forall>x\<in>set [Nothing, Raises OSError, Nothing]. passed_over ''linux'' x"
    by (simp_all add: console_def passed_over_def is_win_def)
  from getch_returns_one_character[of "''linux''" ?w "CHR ''a''" "[Nothing, Raises OSError, Nothing]" "[Got CHR ''b'']"] h
  have "getch ''linux'' ?w = Some (Inr ''a'', after_read ''linux'' ?w [Got CHR ''b''])"
    by blast
  with h show ?thesis by (simp add: console_def)
qed

text \<open>
  Claim C6. A \<^verbatim>\<open>KeyboardInterrupt\<close> raised by a read while \<^verbatim>\<open>getch\<close> waits, or
  by the read of \<^verbatim>\<open>getch_noblock\<close>, is the outcome of the call: it is neither
  swallowed nor retried.
\<close>

theorem keyboard_interrupt_propagates:
  assumes "pending w = pre @ Raises KeyboardInterrupt # rest"
    and "\<forall>x\<in>set pre. passed_over sys_platform x"
    and "pending v = Raises KeyboardInterrupt # rest'"
  shows "getch sys_platform w = Some (Inl KeyboardInterrupt, after_read sys_platform w rest) \<and>
         getch_noblock sys_platform v = Some (Inl KeyboardInterrupt, after_read sys_platform v rest')"
proof
  show "getch sys_platform w = Some (Inl KeyboardInterrupt, after_read sys_platform w rest)"
    using assms(1,2) by (rule getch_KeyboardInterrupt)
next
  show "getch_noblock sys_platform v = Some (Inl KeyboardInterrupt, after_read sys_platform v rest')"
  proof (cases "is_win sys_platform")
    case True
    with assms(3) show ?thesis
      by (simp add: getch_noblock_def getch_noblock_win_def msvcrt_kbhit_def
          noncanonical_mode_def noncanonical_mode_win_def return_def)
  next
    case False
    obtain v1 where v1: "noncanonical_mode_posix v = (Inr (), v1)"
      using noncanonical_mode_posix_frame(1)[of v] by (cases "noncanonical_mode_posix v") auto
    then have "pending v1 = Raises KeyboardInterrupt # rest'"
      using noncanonical_mode_posix_frame(2)[of v] assms(3) by simp
    then have "stdin_read1 v1 = (Inl KeyboardInterrupt, v1\<lparr>pending := rest'\<rparr>)"
      by (simp add: stdin_read1_def)
    with v1 False show ?thesis
      by (simp add: getch_noblock_def getch_noblock_posix_def noncanonical_mode_def)
  qed
qed

theorem keyboard_interrupt_propagates_witness:
  "list_all (passed_over ''linux'') [Nothing, Raises OSError] \<and>
   map_option fst (getch ''linux'' (console [Nothing, Raises OSError, Raises KeyboardInterrupt, Got CHR ''a'']))
     = Some (Inl KeyboardInterrupt) \<and>
   map_option fst (getch_noblock ''linux'' (console [Raises KeyboardInterrupt, Got CHR ''a'']))
     = Some (Inl KeyboardInterrupt)"
proof -
  let ?w = "console [Nothing, Raises OSError, Raises KeyboardInterrupt, Got CHR ''a'']"
  let ?v = "console [Raises KeyboardInterrupt, Got CHR ''a'']"
  have h: "pending ?w = [Nothing, Raises OSError] @ Raises KeyboardInterrupt # [Got CHR ''a'']"
    "\<forall>x\<in>set [Nothing, Raises OSError]. passed_over ''linux'' x"
    "pending ?v = Raises KeyboardInterrupt # [Got CHR ''a'']"
    by (simp_all add: console_def passed_over_def is_win_def)
  from keyboard_interrupt_propagates[OF h] h(2) show ?thesis by simp
qed

text \<open>
  Claim C7. When the input handle is not a terminal, \<^verbatim>\<open>save_mode\<close>,
  \<^verbatim>\<open>noncanonical_mode\<close> and \<^verbatim>\<open>restore_mode\<close> each return normally and leave
  the whole world as it was, the saved terminal state included.
\<close>

theorem terminal_operations_silent_without_terminal:
  assumes "not_a_terminal w"
  shows "save_mode sys_platform w = (Inr (), w) \<and>
         noncanonical_mode sys_platform w = (Inr (), w) \<and>
         restore_mode sys_platform w = (Inr (), w)"
  using assms
  by (auto simp: not_a_terminal_def save_mode_def noncanonical_mode_def restore_mode_def
      save_mode_win_def noncanonical_mode_win_def restore_mode_win_def
      save_mode_posix_def noncanonical_mode_posix_def restore_mode_posix_def
      prim_defs ctl_defs split: sum.splits option.splits)

theorem terminal_operations_silent_without_terminal_witness:
  "not_a_terminal (redirected [Got CHR ''a'']) \<and>
   save_mode ''linux'' (redirected [Got CHR ''a'']) = (Inr (), redirected [Got CHR ''a'']) \<and>
   noncanonical_mode ''linux'' (redirected [Got CHR ''a'']) = (Inr (), redirected [Got CHR ''a'']) \<and>
   restore_mode ''linux'' (redirected [Got CHR ''a'']) = (Inr (), redirected [Got CHR ''a''])"
proof -
  have h: "not_a_terminal (redirected [Got CHR ''a''])"
    by (simp add: not_a_terminal_def redirected_def console_def)
  from terminal_operations_silent_without_terminal[OF h, of "''linux''"] h show ?thesis by simp
qed

text \<open>
  Claim C8. \<^verbatim>\<open>restore_mode\<close> twice in a row gives the world that \<^verbatim>\<open>restore_mode\<close>
  once gives; restoring does not clear the saved state; and with nothing saved
  \<^verbatim>\<open>restore_mode\<close> does nothing.
\<close>

theorem restore_mode_idempotent:
  "restore_mode sys_platform (snd (restore_mode sys_platform w)) = restore_mode sys_platform w \<and>
   oldattr (snd (restore_mode sys_platform w)) = oldattr w \<and>
   saved_state (snd (restore_mode sys_platform w)) = saved_state w \<and>
   (oldattr w = None \<longrightarrow> restore_mode sys_platform w = (Inr (), w))"
  by (auto simp: restore_mode_def restore_mode_win_def restore_mode_posix_def saved_state_def
      prim_defs ctl_defs split: sum.splits option.splits)

theorem restore_mode_idempotent_witness:
  "oldattr (console []) = None \<and>
   restore_mode ''linux'' (console []) = (Inr (), console []) \<and>
   restore_mode ''linux'' (snd (restore_mode ''linux''
      (snd (noncanonical_mode ''linux'' (snd (save_mode ''linux'' (console []))))))) =
   restore_mode ''linux'' (snd (noncanonical_mode ''linux'' (snd (save_mode ''linux'' (console [])))))"
  using restore_mode_idempotent[of "''linux''" "console []"]
    restore_mode_idempotent[of "''linux''" "snd (noncanonical_mode ''linux'' (snd (save_mode ''linux'' (console []))))"]
  by (simp add: console_def)

text \<open>
  Claim C9. In the termios variant on a terminal, \<^verbatim>\<open>noncanonical_mode\<close> installs,
  with \<^verbatim>\<open>TCSANOW\<close>, the attributes the terminal has at the moment of the call,
  changed in this only: \<^verbatim>\<open>ICANON\<close> and \<^verbatim>\<open>ECHO\<close> are cleared in the local flags,
  \<^verbatim>\<open>VMIN\<close> is 0 and \<^verbatim>\<open>VTIME\<close> is 1.
\<close>

theorem noncanonical_mode_sets_attributes:
  assumes "\<not> is_win sys_platform"
    and "fileno w = Inr fd" and "ttys w fd = Some t"
    and "VMIN (termios w) < length (c_cc (live t))"
    and "VTIME (termios w) < length (c_cc (live t))"
    and "VMIN (termios w) \<noteq> VTIME (termios w)"
  shows "\<exists>t'. ttys (snd (noncanonical_mode sys_platform w)) fd = Some t' \<and>
           how_set t' = Some TCSANOW \<and>
           c_lflag (live t') AND ICANON (termios w) = 0 \<and>
           c_lflag (live t') AND ECHO (termios w) = 0 \<and>
           c_cc (live t') ! VMIN (termios w) = 0 \<and>
           c_cc (live t') ! VTIME (termios w) = 1 \<and>
           live t' = (live t)
             \<lparr>c_lflag := c_lflag (live t) AND (NOT (ICANON (termios w)) AND NOT (ECHO (termios w))),
              c_cc := (c_cc (live t))[VMIN (termios w) := 0, VTIME (termios w) := 1]\<rparr>"
proof -
  from assms(1) have "noncanonical_mode sys_platform w = noncanonical_mode_posix w"
    by (simp add: noncanonical_mode_def)
  with noncanonical_mode_posix_tty[OF assms(2-5)]
  have "ttys (snd (noncanonical_mode sys_platform w)) fd = Some
        \<lparr>live = (live t)
           \<lparr>c_lflag := c_lflag (live t) AND (NOT (ICANON (termios w)) AND NOT (ECHO (termios w))),
            c_cc := (c_cc (live t))[VMIN (termios w) := 0, VTIME (termios w) := 1]\<rparr>,
         how_set = Some TCSANOW\<rparr>"
    by simp
  moreover have "(c_cc (live t))[VMIN (termios w) := 0, VTIME (termios w) := 1] ! VMIN (termios w) = 0"
    using assms(4,6) by simp
  moreover have "(c_cc (live t))[VMIN (termios w) := 0, VTIME (termios w) := 1] ! VTIME (termios w) = 1"
    using assms(5) by simp
  ultimately show ?thesis by (simp add: and_not_not_zero)
qed

theorem noncanonical_mode_sets_attributes_witness:
  "\<not> is_win ''linux'' \<and> fileno (console []) = Inr 0 \<and>
   (\<exists>t'. ttys (snd (noncanonical_mode ''linux'' (console []))) 0 = Some t' \<and>
      how_set t' = Some TCSANOW \<and> c_lflag (live t') AND 2 = 0 \<and> c_lflag (live t') AND 8 = 0 \<and>
      c_cc (live t') ! 6 = 0 \<and> c_cc (live t') ! 5 = 1)"
proof -
  have h: "\<not> is_win ''linux''" "fileno (console []) = Inr 0"
    "ttys (console []) 0 = Some \<lparr>live = cooked, how_set = None\<rparr>"
    "VMIN (termios (console [])) < length (c_cc (live \<lparr>live = cooked, how_set = None\<rparr>))"
    "VTIME (termios (console [])) < length (c_cc (live \<lparr>live = cooked, how_set = None\<rparr>))"
    "VMIN (termios (console [])) \<noteq> VTIME (termios (console []))"
    by (simp_all add: is_win_def console_def linux_termios_def cooked_def)
  have c: "ICANON (termios (console [])) = 2" "ECHO (termios (console [])) = 8"
    "VMIN (termios (console [])) = 6" "VTIME (termios (console [])) = 5"
    by (simp_all add: console_def linux_termios_def)
  from noncanonical_mode_sets_attributes[OF h] h(1,2) show ?thesis
    unfolding c by blast
qed

text \<open>
  Claim C10. \<^verbatim>\<open>noncanonical_mode\<close>, \<^verbatim>\<open>restore_mode\<close>, \<^verbatim>\<open>getch\<close> and
  \<^verbatim>\<open>getch_noblock\<close> leave \<^verbatim>\<open>oldattr\<close> and the list it refers to as they
  were, although \<^verbatim>\<open>noncanonical_mode\<close> assigns to lists in place: the lists it
  assigns to are new ones. So what \<^verbatim>\<open>save_mode\<close> captured, the attributes live at
  that moment, is what a later \<^verbatim>\<open>restore_mode\<close> installs.
\<close>

theorem saved_state_written_by_save_mode_only:
  assumes "oldattr_allocated w"
  shows "keeps_saved_state w (snd (noncanonical_mode sys_platform w)) \<and>
         keeps_saved_state w (snd (restore_mode sys_platform w)) \<and>
         (\<forall>r w'. getch sys_platform w = Some (r, w') \<longrightarrow> keeps_saved_state w w') \<and>
         (\<forall>r w'. getch_noblock sys_platform w = Some (r, w') \<longrightarrow> keeps_saved_state w w') \<and>
         oldattr_allocated (snd (save_mode sys_platform w)) \<and>
         (\<forall>fd t. \<not> is_win sys_platform \<and> fileno w = Inr fd \<and> ttys w fd = Some t \<longrightarrow>
            saved_state (snd (save_mode sys_platform w)) = Some (live t)) \<and>
         (\<forall>fd t a. \<not> is_win sys_platform \<and> fileno w = Inr fd \<and> ttys w fd = Some t \<and>
            saved_state w = Some a \<longrightarrow>
            ttys (snd (restore_mode sys_platform w)) fd = Some \<lparr>live = a, how_set = Some TCSANOW\<rparr>)"
proof (intro conjI allI impI)
  show "keeps_saved_state w (snd (noncanonical_mode sys_platform w))"
    using noncanonical_mode_posix_saved[OF assms] assms
    by (simp add: keeps_saved_state_def noncanonical_mode_def noncanonical_mode_win_def return_def)
  show "keeps_saved_state w (snd (restore_mode sys_platform w))"
    using restore_mode_posix_saved[of w] assms
    by (simp add: keeps_saved_state_def restore_mode_def restore_mode_win_def return_def)
  show "keeps_saved_state w w'" if "getch sys_platform w = Some (r, w')" for r w'
    using assms that by (rule getch_keeps_saved_state)
  show "keeps_saved_state w w'" if "getch_noblock sys_platform w = Some (r, w')" for r w'
    using assms that by (rule getch_noblock_keeps_saved_state)
  show "oldattr_allocated (snd (save_mode sys_platform w))"
    using save_mode_posix_allocated[OF assms] assms
    by (simp add: save_mode_def save_mode_win_def return_def)
  show "saved_state (snd (save_mode sys_platform w)) = Some (live t)"
    if "\<not> is_win sys_platform \<and> fileno w = Inr fd \<and> ttys w fd = Some t" for fd t
    using that save_mode_posix_tty[of w fd t] by (simp add: save_mode_def)
  show "ttys (snd (restore_mode sys_platform w)) fd = Some \<lparr>live = a, how_set = Some TCSANOW\<rparr>"
    if "\<not> is_win sys_platform \<and> fileno w = Inr fd \<and> ttys w fd = Some t \<and> saved_state w = Some a"
    for fd t a
    using that restore_mode_posix_applies[of w fd t a] by (simp add: restore_mode_def)
qed

theorem saved_state_written_by_save_mode_only_witness:
  "oldattr_allocated
     (snd (noncanonical_mode ''linux'' (snd (save_mode ''linux'' (console [Got CHR ''a'']))))) \<and>
   saved_state
     (snd (noncanonical_mode ''linux'' (snd (save_mode ''linux'' (console [Got CHR ''a'']))))) =
     Some cooked \<and>
   saved_state (snd (noncanonical_mode ''linux''
     (snd (noncanonical_mode ''linux'' (snd (save_mode ''linux'' (console [Got CHR ''a''])))))))
     = Some cooked \<and>
   map_option (\<lambda>y. saved_state (snd y)) (getch ''linux''
     (snd (noncanonical_mode ''linux'' (snd (save_mode ''linux'' (console [Got CHR ''a'']))))))
     = Some (Some cooked) \<and>
   ttys (snd (restore_mode ''linux''
     (snd (noncanonical_mode ''linux'' (snd (save_mode ''linux'' (console [Got CHR ''a''])))))))
     0 = Some \<lparr>live = cooked, how_set = Some TCSANOW\<rparr>"
proof -
  let ?w = "snd (noncanonical_mode ''linux'' (snd (save_mode ''linux'' (console [Got CHR ''a'']))))"
  have h: "oldattr_allocated ?w"
    by (simp add: oldattr_allocated_def example_defs prim_defs ctl_defs Let_def)
  have s: "saved_state ?w = Some cooked"
    by (simp add: saved_state_def example_defs prim_defs ctl_defs Let_def)
  have f: "\<not> is_win ''linux''" "fileno ?w = Inr 0"
    by (simp_all add: example_defs prim_defs ctl_defs Let_def)
  obtain t where t: "ttys ?w 0 = Some t"
    by (simp add: example_defs prim_defs ctl_defs Let_def)
  have "pending ?w = [] @ Got CHR ''a'' # []"
    by (simp add: example_defs prim_defs ctl_defs Let_def)
  then have g: "getch ''linux'' ?w = Some (Inr ''a'', after_read ''linux'' ?w [])"
    by (rule getch_Got) simp
  note inst = saved_state_written_by_save_mode_only[OF h, of "''linux''"]
  from inst have "keeps_saved_state ?w (snd (noncanonical_mode ''linux'' ?w))" by blast
  moreover from inst g have "keeps_saved_state ?w (after_read ''linux'' ?w [])" by blast
  moreover from inst f t s
  have "ttys (snd (restore_mode ''linux'' ?w)) 0 = Some \<lparr>live = cooked, how_set = Some TCSANOW\<rparr>"
    by blast
  ultimately show ?thesis using h s g by (simp add: keeps_saved_state_def)
qed

end
